theory Spec2Isabelle
  imports Complex_Main
begin

section \<open>The reachability probe of docs/script.js\<close>

text \<open>
  The page measures each card's endpoint three times (\<open>measureRtt\<close>), every measurement
  being one timed \<open>fetch\<close> (\<open>probeRtt\<close>), reduces the successful round-trip times to a
  median and renders one of the states \<open>up\<close>, \<open>warn\<close>, \<open>down\<close> on the card.

  What the browser decides is an input of the model: for every attempt a \<open>probe_env\<close>
  says whether \<open>AbortController\<close> exists, what \<open>new URL\<close> makes of the address, what
  \<open>performance.now()\<close> reads before and after the request, and which of the three
  things happens first once the request is out: the fetch resolves, the fetch rejects,
  or the timer of \<open>timeoutMs\<close> fires. Numbers are IEEE doubles: a double is the real
  number it denotes, and every addition, subtraction and multiplication of the script
  rounds its exact result to the nearest double.
\<close>

subsection \<open>Data\<close>

text \<open>What a \<open>try\<close> block of \<open>probeRtt\<close> can throw.\<close>

datatype js_error = InvalidUrl | NetworkFailure | Aborted | TimedOut

text \<open>The two objects \<open>probeRtt\<close> returns: \<open>{ ok: true, rtt }\<close> and \<open>{ ok: false }\<close>.\<close>

datatype probe_result = ProbeOk int | ProbeFail

datatype settle = Resolves | Rejects | DeadlineFirst

text \<open>
  The browser during one attempt. \<open>startedAt\<close> and \<open>finishedAt\<close> are what
  \<open>performance.now()\<close> returns on line 65 and on line 80 or 97, finite doubles that are
  not negative.
\<close>

record probe_env =
  has_AbortController :: bool
  cache_busted :: "string \<Rightarrow> string option"
  startedAt :: real
  finishedAt :: real
  settles :: settle

text \<open>
  The object \<open>measureRtt\<close> returns. The field \<open>rtt\<close> is \<open>None\<close> where the object has
  no such property (reading it gives \<open>undefined\<close>).
\<close>

record measure_result =
  reachable :: bool
  rtt :: "int option"
  successful :: nat
  samples :: int

text \<open>Calls that reach the network or the clock, in the order they are made.\<close>

datatype event = ProbeRtt string int | Wait int

text \<open>
  The arguments of \<open>setPingState\<close>: the state is the suffix of the class \<open>status--...\<close>,
  the text is the fixed "measuring" or "unavailable" caption or \<open>`${n} ms`\<close>.
\<close>

datatype ping_state = Checking | Up | Warn | Down

datatype value_text = Measuring | Unavailable | Millis int

subsection \<open>Double arithmetic\<close>

text \<open>
  Rounding a real number to binary64, to nearest with ties to the even significand.
  The doubles around \<open>x\<close> are the multiples of \<open>ulp x\<close>, which is \<open>2 ^ (e - 52)\<close> when
  \<open>2 ^ e \<le> |x| < 2 ^ (e + 1)\<close> and \<open>2 ^ -1074\<close> below the normal range. Overflow is
  left out: no result of the script comes near \<open>2 ^ 1024\<close>.
\<close>

definition binade :: "real \<Rightarrow> int" where
  "binade x = max \<lfloor>log 2 \<bar>x\<bar>\<rfloor> (- 1022)"

definition ulp :: "real \<Rightarrow> real" where
  "ulp x = 2 powi (binade x - 52)"

definition round_even :: "real \<Rightarrow> int" where
  "round_even m =
     (if m - of_int \<lfloor>m\<rfloor> < 1 / 2 then \<lfloor>m\<rfloor>
      else if 1 / 2 < m - of_int \<lfloor>m\<rfloor> then \<lfloor>m\<rfloor> + 1
      else if even \<lfloor>m\<rfloor> then \<lfloor>m\<rfloor> else \<lfloor>m\<rfloor> + 1)"

definition fl :: "real \<Rightarrow> real" where
  "fl x = (if x = 0 then 0 else of_int (round_even (x / ulp x)) * ulp x)"

text \<open>The finite doubles: the numbers that rounding leaves alone.\<close>

definition is_double :: "real \<Rightarrow> bool" where
  "is_double x \<longleftrightarrow> fl x = x \<and> \<bar>x\<bar> < 2 ^ 1024"

subsection \<open>probeRtt\<close>

text \<open>
  \<open>withCacheBust\<close>: \<open>new URL(rawUrl, window.location.href)\<close> throws on an address it
  cannot parse; otherwise the address with the parameter \<open>_pv\<close> set comes back.
\<close>

definition withCacheBust :: "probe_env \<Rightarrow> string \<Rightarrow> js_error + string" where
  "withCacheBust env rawUrl =
     (case cache_busted env rawUrl of None \<Rightarrow> Inl InvalidUrl | Some u \<Rightarrow> Inr u)"

text \<open>
  \<open>await Promise.race([fetch(...), wait(timeoutMs).then(() => { throw new Error("timeout") })])\<close>
\<close>

definition await_race :: "probe_env \<Rightarrow> string \<Rightarrow> int \<Rightarrow> js_error + unit" where
  "await_race env u timeoutMs =
     (case settles env of
        Resolves \<Rightarrow> Inr ()
      | Rejects \<Rightarrow> Inl NetworkFailure
      | DeadlineFirst \<Rightarrow> Inl TimedOut)"

text \<open>
  \<open>await fetch(..., { signal: controller.signal })\<close> with the timer armed to call
  \<open>controller.abort()\<close> after \<open>timeoutMs\<close>: the abort rejects the pending fetch.
\<close>

definition await_fetch :: "probe_env \<Rightarrow> string \<Rightarrow> int \<Rightarrow> js_error + unit" where
  "await_fetch env u timeoutMs =
     (case settles env of
        Resolves \<Rightarrow> Inr ()
      | Rejects \<Rightarrow> Inl NetworkFailure
      | DeadlineFirst \<Rightarrow> Inl Aborted)"

text \<open>
  The \<open>try\<close> block of the branch without \<open>AbortController\<close> (lines 68 to 80). The
  subtraction \<open>performance.now() - startedAt\<close> is one of doubles; \<open>Math.round\<close> of a
  double \<open>x\<close> is the integer \<open>floor (x + 1/2)\<close> exactly, which is \<open>round x\<close>.
\<close>

definition try_race :: "probe_env \<Rightarrow> string \<Rightarrow> int \<Rightarrow> js_error + probe_result" where
  "try_race env url timeoutMs =
     (case withCacheBust env url of
        Inl e \<Rightarrow> Inl e
      | Inr u \<Rightarrow>
          (case await_race env u timeoutMs of
             Inl e \<Rightarrow> Inl e
           | Inr _ \<Rightarrow> Inr (ProbeOk (round (fl (finishedAt env - startedAt env))))))"

text \<open>The \<open>try\<close> block of the branch with \<open>AbortController\<close> (lines 89 to 97).\<close>

definition try_abort :: "probe_env \<Rightarrow> string \<Rightarrow> int \<Rightarrow> js_error + probe_result" where
  "try_abort env url timeoutMs =
     (case withCacheBust env url of
        Inl e \<Rightarrow> Inl e
      | Inr u \<Rightarrow>
          (case await_fetch env u timeoutMs of
             Inl e \<Rightarrow> Inl e
           | Inr _ \<Rightarrow> Inr (ProbeOk (round (fl (finishedAt env - startedAt env))))))"

text \<open>
  \<open>probeRtt\<close>: each branch is \<open>try { ... } catch { return { ok: false } }\<close>; the
  \<open>finally\<close> of the second only clears the timer. \<open>Inl\<close> would be an exception leaving
  the function.
\<close>

definition probeRtt :: "probe_env \<Rightarrow> string \<Rightarrow> int \<Rightarrow> js_error + probe_result" where
  "probeRtt env url timeoutMs =
     (if \<not> has_AbortController env then
        (case try_race env url timeoutMs of
           Inr r \<Rightarrow> Inr r
         | Inl _ \<Rightarrow> Inr ProbeFail)
      else
        (case try_abort env url timeoutMs of
           Inr r \<Rightarrow> Inr r
         | Inl _ \<Rightarrow> Inr ProbeFail))"

subsection \<open>measureRtt\<close>

text \<open>
  The loop \<open>for (let i = 0; i < samples; i += 1)\<close>, with the array \<open>successful\<close> and the
  calls made so far as its state: \<open>n\<close> is the parameter \<open>samples\<close> (always passed; the
  handler gives 3, which is also its default), \<open>acc\<close> the array. Attempt \<open>i\<close> runs in
  the environment \<open>envs i\<close>; \<open>await wait(180)\<close> follows every attempt but the last.
\<close>

function measureRtt_loop ::
  "(nat \<Rightarrow> probe_env) \<Rightarrow> string \<Rightarrow> int \<Rightarrow> nat \<Rightarrow> int list \<Rightarrow> event list
     \<Rightarrow> js_error + (int list \<times> event list)" where
  "measureRtt_loop envs url n i acc calls =
     (if int i < n then
        (case probeRtt (envs i) url 4200 of
           Inl e \<Rightarrow> Inl e
         | Inr result \<Rightarrow>
             measureRtt_loop envs url n (i + 1)
               (case result of ProbeOk r \<Rightarrow> acc @ [r] | ProbeFail \<Rightarrow> acc)
               (if int i < n - 1 then calls @ [ProbeRtt url 4200, Wait 180]
                else calls @ [ProbeRtt url 4200]))
      else Inr (acc, calls))"
  by pat_completeness auto
termination
  by (relation "measure (\<lambda>(envs, url, n, i, acc, calls). nat (n - int i))") auto

declare measureRtt_loop.simps [simp del]

text \<open>Reading \<open>xs[i]\<close>: \<open>undefined\<close> beyond the end.\<close>

definition js_index :: "'a list \<Rightarrow> nat \<Rightarrow> 'a option" where
  "js_index xs i = (if i < length xs then Some (xs ! i) else None)"

definition measureRtt ::
  "(nat \<Rightarrow> probe_env) \<Rightarrow> string \<Rightarrow> int \<Rightarrow> js_error + (measure_result \<times> event list)" where
  "measureRtt envs url n =
     (case measureRtt_loop envs url n 0 [] [] of
        Inl e \<Rightarrow> Inl e
      | Inr (acc, calls) \<Rightarrow>
          if length acc = 0 then
            Inr (\<lparr>reachable = False, rtt = None, successful = 0, samples = n\<rparr>, calls)
          else
            (let sorted_rtts = sort acc;
                 median = js_index sorted_rtts (length sorted_rtts div 2)
             in Inr (\<lparr>reachable = True, rtt = median, successful = length acc,
                       samples = n\<rparr>, calls)))"

subsection \<open>The handler of a card\<close>

text \<open>
  \<open>Math.floor(Math.random() * 11) + 150\<close>, the draw of \<open>Math.random()\<close> being the
  double \<open>u\<close>. The product and the sum are rounded; \<open>Math.floor\<close> is exact. The sum of
  an integer and 150 rounds to a double that is an integer, and the outer floor only
  reads it as one: the template prints that integer.
\<close>

definition randomWarnPing :: "real \<Rightarrow> int" where
  "randomWarnPing u = \<lfloor>fl (of_int \<lfloor>fl (u * 11)\<rfloor> + 150)\<rfloor>"

text \<open>
  Lines 144 to 159, what the handler passes to \<open>setPingState\<close> once \<open>measureRtt\<close> has
  returned. Both comparisons are false on \<open>undefined\<close>.
\<close>

definition classify :: "measure_result \<Rightarrow> real \<Rightarrow> ping_state \<times> value_text" where
  "classify result u =
     (if \<not> reachable result then (Down, Unavailable)
      else
        (case rtt result of
           None \<Rightarrow> (Down, Unavailable)
         | Some r \<Rightarrow>
             if r < 150 then (Up, Millis r)
             else if r \<le> 700 then (Warn, Millis (randomWarnPing u))
             else (Down, Unavailable)))"

text \<open>
  Lines 136 to 160. \<open>card.dataset.pingUrl\<close> is \<open>None\<close> when the attribute is missing;
  \<open>!pingUrl\<close> holds of that and of the empty string.
\<close>

definition pingCard ::
  "(nat \<Rightarrow> probe_env) \<Rightarrow> real \<Rightarrow> string option
     \<Rightarrow> js_error + ((ping_state \<times> value_text) \<times> event list)" where
  "pingCard envs u pingUrl =
     (case pingUrl of
        None \<Rightarrow> Inr ((Down, Unavailable), [])
      | Some url \<Rightarrow>
          if url = [] then Inr ((Down, Unavailable), [])
          else
            (case measureRtt envs url 3 of
               Inl e \<Rightarrow> Inl e
             | Inr (result, calls) \<Rightarrow> Inr (classify result u, calls)))"

subsection \<open>What a run is measured against\<close>

text \<open>
  The round-trip times a run collects, said without the loop: attempt \<open>i\<close> contributes
  its time when it is \<open>ok\<close> and nothing otherwise, in the order of the attempts.
\<close>

definition attempt_rtts :: "probe_env \<Rightarrow> string \<Rightarrow> int list" where
  "attempt_rtts env url =
     (case probeRtt env url 4200 of Inr (ProbeOk r) \<Rightarrow> [r] | _ \<Rightarrow> [])"

definition successful_rtts :: "(nat \<Rightarrow> probe_env) \<Rightarrow> string \<Rightarrow> int \<Rightarrow> int list" where
  "successful_rtts envs url n = concat (map (\<lambda>i. attempt_rtts (envs i) url) [0..<nat n])"

text \<open>The calls of iteration \<open>i\<close>: the probe, and the pause unless it is the last one.\<close>

definition calls_of :: "string \<Rightarrow> int \<Rightarrow> nat \<Rightarrow> event list" where
  "calls_of url n i =
     (if int i < n - 1 then [ProbeRtt url 4200, Wait 180] else [ProbeRtt url 4200])"

fun is_probe :: "event \<Rightarrow> bool" where
  "is_probe (ProbeRtt _ _) = True"
| "is_probe (Wait _) = False"

subsection \<open>Concrete browsers\<close>

text \<open>
  A browser with \<open>AbortController\<close> in which the request is answered after \<open>ms\<close>
  milliseconds, one without it in which the same happens, one in which the timer of
  4200 ms fires first, and one whose clock reads the doubles nearest to 0.1 and to
  149.6 around an answered request.
\<close>

definition answers_after :: "real \<Rightarrow> probe_env" where
  "answers_after ms =
     \<lparr>has_AbortController = True, cache_busted = (\<lambda>u. Some (u @ ''?_pv=0'')),
      startedAt = 0, finishedAt = ms, settles = Resolves\<rparr>"

definition old_answers_after :: "real \<Rightarrow> probe_env" where
  "old_answers_after ms =
     \<lparr>has_AbortController = False, cache_busted = (\<lambda>u. Some (u @ ''?_pv=7'')),
      startedAt = 1000, finishedAt = 1000 + ms, settles = Resolves\<rparr>"

definition times_out :: probe_env where
  "times_out =
     \<lparr>has_AbortController = True, cache_busted = (\<lambda>u. Some (u @ ''?_pv=0'')),
      startedAt = 0, finishedAt = 4201, settles = DeadlineFirst\<rparr>"

definition tenth_ms_clock :: probe_env where
  "tenth_ms_clock =
     \<lparr>has_AbortController = True, cache_busted = (\<lambda>u. Some (u @ ''?_pv=0'')),
      startedAt = 3602879701896397 / 2 ^ 55, finishedAt = 5263582064489267 / 2 ^ 45,
      settles = Resolves\<rparr>"

text \<open>The attempts of a run, one environment each; later attempts time out.\<close>

definition attempts :: "probe_env list \<Rightarrow> nat \<Rightarrow> probe_env" where
  "attempts es i = (if i < length es then es ! i else times_out)"

text \<open>
  The address of a card, and four runs of three attempts: three answers; two answers
  and a timeout; the same two round-trip times from browsers of the other kind, at
  another address; and no answer at all.
\<close>

definition ping_url :: string where
  "ping_url = ''https://vpn.example/ping''"

definition three_answers :: "nat \<Rightarrow> probe_env" where
  "three_answers = attempts [answers_after 220, answers_after 90, answers_after 310]"

definition two_answers :: "nat \<Rightarrow> probe_env" where
  "two_answers = attempts [answers_after 100, old_answers_after 300]"

definition two_answers_again :: "nat \<Rightarrow> probe_env" where
  "two_answers_again = attempts [old_answers_after 100, answers_after (1199 / 4), times_out]"

definition no_answers :: "nat \<Rightarrow> probe_env" where
  "no_answers = attempts []"

section \<open>Properties\<close>

subsection \<open>Rounding to a double\<close>

lemma two_powr_int: "(2::real) powr real_of_int k = 2 powi k"
  by (rule powr_real_of_int') simp_all

lemma floor_log2_eqI:
  assumes "2 powi e \<le> y" and "y < 2 powi (e + 1)"
  shows "\<lfloor>log 2 y\<rfloor> = e"
proof -
  have pos: "0 < y"
    using assms(1) zero_less_power_int [of "2::real" e] by linarith
  have "2 powr real_of_int e \<le> y \<and> y < 2 powr (real_of_int e + 1)"
    using assms two_powr_int [of e] two_powr_int [of "e + 1"] by simp
  with pos show ?thesis
    by (simp add: floor_log_eq_powr_iff)
qed

lemma floor_log2_bounds:
  assumes "0 < y"
  shows "2 powi \<lfloor>log 2 y\<rfloor> \<le> y" and "y < 2 powi (\<lfloor>log 2 y\<rfloor> + 1)"
proof -
  have "2 powr real_of_int \<lfloor>log 2 y\<rfloor> \<le> y \<and> y < 2 powr (real_of_int \<lfloor>log 2 y\<rfloor> + 1)"
    using assms floor_log_eq_powr_iff [of y 2 "\<lfloor>log 2 y\<rfloor>"] by simp
  then show "2 powi \<lfloor>log 2 y\<rfloor> \<le> y" and "y < 2 powi (\<lfloor>log 2 y\<rfloor> + 1)"
    using two_powr_int [of "\<lfloor>log 2 y\<rfloor>"] two_powr_int [of "\<lfloor>log 2 y\<rfloor> + 1"] by simp_all
qed

lemma binade_eqI:
  assumes "2 powi e \<le> \<bar>x\<bar>" and "\<bar>x\<bar> < 2 powi (e + 1)" and "- 1022 \<le> e"
  shows "binade x = e"
  using floor_log2_eqI [OF assms(1,2)] assms(3) by (simp add: binade_def)

lemma binade_le:
  assumes "x \<noteq> 0" and "\<bar>x\<bar> < 2 powi (e + 1)" and "- 1022 \<le> e"
  shows "binade x \<le> e"
proof -
  have "2 powi \<lfloor>log 2 \<bar>x\<bar>\<rfloor> \<le> \<bar>x\<bar>"
    using assms(1) by (intro floor_log2_bounds) simp
  with assms(2) have "(2::real) powi \<lfloor>log 2 \<bar>x\<bar>\<rfloor> < 2 powi (e + 1)"
    by linarith
  moreover have "(2::real) powi (e + 1) \<le> 2 powi \<lfloor>log 2 \<bar>x\<bar>\<rfloor>" if "e + 1 \<le> \<lfloor>log 2 \<bar>x\<bar>\<rfloor>"
    using that by (rule power_int_increasing) simp
  ultimately have "\<lfloor>log 2 \<bar>x\<bar>\<rfloor> < e + 1"
    by fastforce
  with assms(3) show ?thesis
    by (simp add: binade_def)
qed

lemma below_next_binade:
  assumes "x \<noteq> 0"
  shows "\<bar>x\<bar> < 2 powi (binade x + 1)"
proof -
  have "\<bar>x\<bar> < 2 powi (\<lfloor>log 2 \<bar>x\<bar>\<rfloor> + 1)"
    using assms by (intro floor_log2_bounds) simp
  also have "\<dots> \<le> 2 powi (binade x + 1)"
    by (rule power_int_increasing) (simp_all add: binade_def)
  finally show ?thesis .
qed

lemma ulp_pos: "0 < ulp x"
  by (simp add: ulp_def)

lemma round_even_of_int: "round_even (of_int k) = k"
  by (simp add: round_even_def)

lemma round_even_le:
  assumes "m < of_int N + 1 / 2"
  shows "round_even m \<le> N"
proof -
  have le: "\<lfloor>m\<rfloor> \<le> N"
    using assms by (simp add: floor_le_iff)
  show ?thesis
  proof (cases "\<lfloor>m\<rfloor> = N")
    case True
    with assms have "m - of_int \<lfloor>m\<rfloor> < 1 / 2" by simp
    with True show ?thesis by (simp add: round_even_def)
  next
    case False
    with le have "\<lfloor>m\<rfloor> + 1 \<le> N" by simp
    with le show ?thesis by (simp add: round_even_def)
  qed
qed

lemma round_even_nonneg: "0 \<le> m \<Longrightarrow> 0 \<le> round_even m"
  by (simp add: round_even_def)

lemma fl_nonneg: "0 \<le> x \<Longrightarrow> 0 \<le> fl x"
  using ulp_pos [of x] by (simp add: fl_def round_even_nonneg)

lemma next_binade: "(2::real) powi (b + 1) = 2 ^ 53 * 2 powi (b - 52)"
proof -
  have "(2::real) powi (53 + (b - 52)) = 2 powi 53 * 2 powi (b - 52)"
    by (rule power_int_add) simp
  moreover have "53 + (b - 52) = b + 1"
    by simp
  ultimately show ?thesis
    by (simp only: power_int_numeral)
qed

lemma fl_le_next_binade:
  assumes "0 < x"
  shows "fl x \<le> 2 powi (binade x + 1)"
proof -
  have "x < 2 powi (binade x + 1)"
    using below_next_binade [of x] assms by simp
  also have "2 powi (binade x + 1) = (2::real) ^ 53 * ulp x"
    by (simp only: ulp_def next_binade)
  finally have "x / ulp x < 2 ^ 53"
    using ulp_pos [of x] by (simp add: divide_less_eq)
  moreover have "real_of_int (2 ^ 53) = 2 ^ 53"
    by simp
  ultimately have "x / ulp x < of_int (2 ^ 53) + 1 / 2"
    by linarith
  then have "round_even (x / ulp x) \<le> 2 ^ 53"
    by (rule round_even_le)
  then have "real_of_int (round_even (x / ulp x)) \<le> 2 ^ 53"
    by simp
  then have "of_int (round_even (x / ulp x)) * ulp x \<le> 2 ^ 53 * ulp x"
    using ulp_pos [of x] by (simp add: mult_right_mono)
  also have "(2::real) ^ 53 * ulp x = 2 powi (binade x + 1)"
    by (simp only: ulp_def next_binade)
  finally show ?thesis
    using assms by (simp add: fl_def)
qed

lemma fl_eq:
  assumes "2 powi e \<le> \<bar>x\<bar>" and "\<bar>x\<bar> < 2 powi (e + 1)" and "- 1022 \<le> e"
  shows "fl x = of_int (round_even (x / 2 powi (e - 52))) * 2 powi (e - 52)"
proof -
  have "x \<noteq> 0"
  proof
    assume "x = 0"
    with assms(1) have "(2::real) powi e \<le> 0"
      by simp
    moreover have "0 < (2::real) powi e"
      by simp
    ultimately show False
      by linarith
  qed
  then show ?thesis
    by (simp add: fl_def ulp_def binade_eqI [OF assms])
qed

lemma fl_exact:
  assumes "2 powi e \<le> \<bar>x\<bar>" and "\<bar>x\<bar> < 2 powi (e + 1)" and "- 1022 \<le> e"
    and "x = of_int k * 2 powi (e - 52)"
  shows "fl x = x"
proof -
  have "x / 2 powi (e - 52) = of_int k"
    using assms(4) by simp
  then show ?thesis
    using fl_eq [OF assms(1-3)] assms(4) by (simp add: round_even_of_int)
qed

lemma below_one:
  assumes "is_double u" and "u < 1" and "0 \<le> u"
  shows "u \<le> 1 - 1 / 2 ^ 53"
proof (cases "u < 1 / 2")
  case True
  then show ?thesis by simp
next
  case False
  then have "2 powi (- 1) \<le> \<bar>u\<bar>" and "\<bar>u\<bar> < 2 powi (- 1 + 1)"
    using assms(2) by (simp_all add: power_int_minus)
  then have "fl u = of_int (round_even (u / 2 powi (- 1 - 52))) * 2 powi (- 1 - 52)"
    by (rule fl_eq) simp
  with assms(1) have u: "u = of_int (round_even (u * 2 ^ 53)) / 2 ^ 53"
    by (simp add: is_double_def power_int_minus divide_simps)
  define m where "m = round_even (u * 2 ^ 53)"
  have "real_of_int m < 2 ^ 53"
    using u assms(2) by (simp add: m_def divide_simps)
  then have "m < 2 ^ 53"
    by simp
  then have "m \<le> 2 ^ 53 - 1"
    by simp
  then have "real_of_int m \<le> 2 ^ 53 - 1"
    by simp
  then have "real_of_int m / 2 ^ 53 \<le> (2 ^ 53 - 1) / 2 ^ 53"
    by (simp add: divide_right_mono)
  with u show ?thesis
    by (simp add: m_def diff_divide_distrib)
qed

lemma fl_random_times_11:
  assumes "is_double u" and "0 \<le> u" and "u < 1"
  shows "0 \<le> fl (u * 11)" and "fl (u * 11) < 11"
proof -
  show "0 \<le> fl (u * 11)"
    using assms(2) by (intro fl_nonneg) simp
  have top: "u * 11 \<le> 11 - 11 / 2 ^ 53"
    using below_one [OF assms(1,3,2)] by simp
  show "fl (u * 11) < 11"
  proof (cases "u * 11 < 8")
    case True
    show ?thesis
    proof (cases "u = 0")
      case True
      then show ?thesis by (simp add: fl_def)
    next
      case False
      with assms(2) have pos: "0 < u * 11" by simp
      have "binade (u * 11) \<le> 2"
        using pos \<open>u * 11 < 8\<close> by (intro binade_le) simp_all
      then have "(2::real) powi (binade (u * 11) + 1) \<le> 2 powi 3"
        by (intro power_int_increasing) simp_all
      with fl_le_next_binade [OF pos] show ?thesis
        by simp
    qed
  next
    case False
    then have "2 powi 3 \<le> \<bar>u * 11\<bar>" and "\<bar>u * 11\<bar> < 2 powi (3 + 1)"
      using top by simp_all
    then have eq: "fl (u * 11) = of_int (round_even (u * 11 / 2 powi (3 - 52))) * 2 powi (3 - 52)"
      by (rule fl_eq) simp
    have "u * 11 * 2 ^ 49 \<le> (11 - 11 / 2 ^ 53) * 2 ^ 49"
      using top by (simp add: mult_right_mono)
    then have "u * 11 * 2 ^ 49 < of_int (11 * 2 ^ 49 - 1) + 1 / 2"
      by simp
    then have "round_even (u * 11 * 2 ^ 49) \<le> 11 * 2 ^ 49 - 1"
      by (rule round_even_le)
    then have "real_of_int (round_even (u * 11 * 2 ^ 49)) \<le> 11 * 2 ^ 49 - 1"
      by simp
    then have "real_of_int (round_even (u * 11 * 2 ^ 49)) / 2 ^ 49 \<le> (11 * 2 ^ 49 - 1) / 2 ^ 49"
      by (simp add: divide_right_mono)
    then show ?thesis
      by (simp add: eq power_int_minus divide_simps)
  qed
qed

lemma fl_band:
  assumes "150 \<le> k" and "k \<le> 160"
  shows "fl (of_int k) = of_int k"
proof (rule fl_exact [of 7 _ "k * 2 ^ 45"])
  show "2 powi 7 \<le> \<bar>real_of_int k\<bar>" using assms by simp
  show "\<bar>real_of_int k\<bar> < 2 powi (7 + 1)" using assms by simp
  show "- 1022 \<le> (7::int)" by simp
  show "real_of_int k = real_of_int (k * 2 ^ 45) * 2 powi (7 - 52)"
    by (simp add: power_int_minus)
qed

lemma fl_of_int:
  assumes "\<bar>k\<bar> < 2 ^ 53"
  shows "fl (of_int k) = of_int k"
proof (cases "k = 0")
  case True
  then show ?thesis by (simp add: fl_def)
next
  case False
  define x where "x = real_of_int k"
  define e where "e = \<lfloor>log 2 \<bar>x\<bar>\<rfloor>"
  from False have "1 \<le> \<bar>k\<bar>"
    by simp
  then have "(1::real) \<le> of_int \<bar>k\<bar>"
    by simp
  then have one: "1 \<le> \<bar>x\<bar>"
    by (simp add: x_def)
  then have pos: "0 < \<bar>x\<bar>"
    by linarith
  have lo: "2 powi e \<le> \<bar>x\<bar>" and hi: "\<bar>x\<bar> < 2 powi (e + 1)"
    using floor_log2_bounds [OF pos] by (simp_all add: e_def)
  have e0: "0 \<le> e"
    using one by (simp add: e_def)
  from assms have "real_of_int \<bar>k\<bar> < 2 ^ 53"
    by simp
  then have "\<bar>x\<bar> < 2 ^ 53"
    by (simp add: x_def)
  with lo have "(2::real) powi e < 2 powi 53"
    by simp
  moreover have "(2::real) powi 53 \<le> 2 powi e" if "53 \<le> e"
    using that by (rule power_int_increasing) simp
  ultimately have e52: "e \<le> 52"
    by fastforce
  have "(2::real) powi (e - 52) * 2 ^ nat (52 - e) = 1"
    using e52 by (simp add: power_int_def field_simps)
  then have "x = of_int (k * 2 ^ nat (52 - e)) * 2 powi (e - 52)"
    by (simp add: x_def mult.assoc mult.commute)
  with lo hi e0 have "fl x = x"
    by (intro fl_exact [of e x "k * 2 ^ nat (52 - e)"]) simp_all
  then show ?thesis
    by (simp add: x_def)
qed

lemma fl_numeral: "(numeral n :: int) < 2 ^ 53 \<Longrightarrow> fl (numeral n) = numeral n"
  using fl_of_int [of "numeral n"] by simp

lemma fl_clock_example:
  "fl (5386305154335113011 / 36028797018963968) = 299 / 2"
  by (subst fl_eq [of 7]) (simp_all add: round_even_def power_int_minus)

lemma fl_quarter: "fl (1199 / 4) = 1199 / 4"
  by (rule fl_exact [of 8 _ "1199 * 2 ^ 42"]) (simp_all add: power_int_minus)

lemma is_double_0: "is_double 0"
  by (simp add: is_double_def fl_def)

lemma is_double_half: "is_double (1 / 2)"
  unfolding is_double_def
  by (intro conjI fl_exact [of "-1" _ "2 ^ 52"]) (simp_all add: power_int_minus)

lemma is_double_below_1: "is_double (1 - 1 / 2 ^ 53)"
  unfolding is_double_def
  by (intro conjI fl_exact [of "-1" _ "2 ^ 53 - 1"]) (simp_all add: power_int_minus)

lemma is_double_draw: "is_double (8188362958855447 / 2 ^ 53)"
  unfolding is_double_def
  by (intro conjI fl_exact [of "-1" _ "8188362958855447"]) (simp_all add: power_int_minus)

lemma fl_draw_times_11: "fl (8188362958855447 / 2 ^ 53 * 11) = 10"
  by (subst fl_eq [of 3]) (simp_all add: round_even_def power_int_minus)

lemma fl_below_1_times_11:
  "fl (99079191802150901 / 9007199254740992) = 6192449487634431 / 562949953421312"
  by (subst fl_eq [of 3]) (simp_all add: round_even_def power_int_minus)

lemma fl_half_times_11: "fl (11 / 2) = 11 / 2"
  by (subst fl_eq [of 2]) (simp_all add: round_even_def power_int_minus)

lemma randomWarnPing_eq:
  assumes "is_double u" and "0 \<le> u" and "u < 1"
  shows "randomWarnPing u = \<lfloor>fl (u * 11)\<rfloor> + 150"
    and "150 \<le> randomWarnPing u" and "randomWarnPing u \<le> 160"
proof -
  define k where "k = \<lfloor>fl (u * 11)\<rfloor> + 150"
  have "0 \<le> fl (u * 11)" and "fl (u * 11) < 11"
    using assms by (rule fl_random_times_11)+
  then have "0 \<le> \<lfloor>fl (u * 11)\<rfloor>" and "\<lfloor>fl (u * 11)\<rfloor> < 11"
    by (simp_all add: floor_less_iff)
  then have band: "150 \<le> k" "k \<le> 160"
    by (simp_all add: k_def)
  then have "fl (of_int k) = of_int k"
    by (rule fl_band)
  moreover have "real_of_int \<lfloor>fl (u * 11)\<rfloor> + 150 = of_int k"
    by (simp add: k_def)
  ultimately have "randomWarnPing u = k"
    by (simp add: randomWarnPing_def)
  with band show "randomWarnPing u = \<lfloor>fl (u * 11)\<rfloor> + 150"
    and "150 \<le> randomWarnPing u" and "randomWarnPing u \<le> 160"
    by (simp_all add: k_def)
qed

lemma randomWarnPing_0: "randomWarnPing 0 = 150"
  using randomWarnPing_eq(1) [OF is_double_0] by (simp add: fl_def)

lemma randomWarnPing_half: "randomWarnPing (1 / 2) = 155"
  using randomWarnPing_eq(1) [OF is_double_half] by (simp add: fl_half_times_11)

lemma randomWarnPing_draw: "randomWarnPing (8188362958855447 / 2 ^ 53) = 160"
  using randomWarnPing_eq(1) [OF is_double_draw] fl_draw_times_11 by simp

lemma randomWarnPing_below_1: "randomWarnPing (1 - 1 / 2 ^ 53) = 160"
  using randomWarnPing_eq(1) [OF is_double_below_1] by (simp add: fl_below_1_times_11)

subsection \<open>The loop and the reduction in closed form\<close>

lemma probeRtt_cases:
  "probeRtt env url timeoutMs =
     Inr (if cache_busted env url \<noteq> None \<and> settles env = Resolves
          then ProbeOk (round (fl (finishedAt env - startedAt env))) else ProbeFail)"
  by (simp add: probeRtt_def try_race_def try_abort_def withCacheBust_def
        await_race_def await_fetch_def split: option.split settle.split)

lemma measureRtt_loop_eq:
  "measureRtt_loop envs url n i acc calls =
     Inr (acc @ concat (map (\<lambda>k. attempt_rtts (envs k) url) [i..<nat n]),
          calls @ concat (map (calls_of url n) [i..<nat n]))"
proof (induction envs url n i acc calls rule: measureRtt_loop.induct)
  case (1 envs url n i acc calls)
  show ?case
  proof (cases "int i < n")
    case False
    then have "[i..<nat n] = []" by simp
    with False show ?thesis by (subst measureRtt_loop.simps) simp
  next
    case True
    obtain r where r: "probeRtt (envs i) url 4200 = Inr r"
      using probeRtt_cases by blast
    from True have upt: "[i..<nat n] = i # [i + 1..<nat n]"
      by (simp add: upt_conv_Cons)
    have step: "measureRtt_loop envs url n i acc calls =
        measureRtt_loop envs url n (i + 1)
          (case r of ProbeOk x \<Rightarrow> acc @ [x] | ProbeFail \<Rightarrow> acc)
          (if int i < n - 1 then calls @ [ProbeRtt url 4200, Wait 180]
           else calls @ [ProbeRtt url 4200])"
      using True r by (subst measureRtt_loop.simps) simp
    have here: "calls_of url n i =
        (if int i < n - 1 then [ProbeRtt url 4200, Wait 180] else [ProbeRtt url 4200])"
      by (simp add: calls_of_def)
    show ?thesis
      unfolding step "1.IH"[OF True r] upt
      by (cases r) (simp_all add: attempt_rtts_def r here)
  qed
qed

lemma measureRtt_eq:
  "measureRtt envs url n =
     Inr (if successful_rtts envs url n = []
          then \<lparr>reachable = False, rtt = None, successful = 0, samples = n\<rparr>
          else \<lparr>reachable = True,
                rtt = Some (sort (successful_rtts envs url n)
                              ! (length (successful_rtts envs url n) div 2)),
                successful = length (successful_rtts envs url n), samples = n\<rparr>,
          concat (map (calls_of url n) [0..<nat n]))"
  by (simp add: measureRtt_def measureRtt_loop_eq successful_rtts_def js_index_def Let_def)

lemma attempt_rtts_eq:
  "attempt_rtts env url =
     (if cache_busted env url \<noteq> None \<and> settles env = Resolves
      then [round (fl (finishedAt env - startedAt env))] else [])"
  by (simp add: attempt_rtts_def probeRtt_cases)

lemma attempt_rtts_iff:
  "r \<in> set (attempt_rtts env url) \<longleftrightarrow> probeRtt env url 4200 = Inr (ProbeOk r)"
  by (auto simp: attempt_rtts_def split: sum.splits probe_result.splits)

lemma attempt_rtts_Nil_iff:
  "attempt_rtts env url = [] \<longleftrightarrow> probeRtt env url 4200 = Inr ProbeFail"
  by (simp add: attempt_rtts_def probeRtt_cases)

lemma length_concat_le:
  "(\<And>x. length (f x) \<le> 1) \<Longrightarrow> length (concat (map f xs)) \<le> length xs"
proof (induction xs)
  case Nil
  show ?case by simp
next
  case (Cons x xs)
  have "length (f x) \<le> 1" by (rule Cons.prems)
  moreover have "length (concat (map f xs)) \<le> length xs"
    using Cons.IH Cons.prems by blast
  ultimately show ?case by simp
qed

lemma length_successful_rtts: "length (successful_rtts envs url n) \<le> nat n"
proof -
  have "length (concat (map (\<lambda>i. attempt_rtts (envs i) url) [0..<nat n])) \<le> length [0..<nat n]"
    by (rule length_concat_le) (simp add: attempt_rtts_eq)
  then show ?thesis by (simp add: successful_rtts_def)
qed

lemma set_successful_rtts:
  "r \<in> set (successful_rtts envs url n) \<longleftrightarrow>
     (\<exists>i. int i < n \<and> probeRtt (envs i) url 4200 = Inr (ProbeOk r))"
proof -
  have "r \<in> set (successful_rtts envs url n) \<longleftrightarrow>
          (\<exists>i<nat n. r \<in> set (attempt_rtts (envs i) url))"
    by (auto simp: successful_rtts_def)
  also have "\<dots> \<longleftrightarrow> (\<exists>i. int i < n \<and> probeRtt (envs i) url 4200 = Inr (ProbeOk r))"
    by (simp add: attempt_rtts_iff zless_nat_eq_int_zless)
  finally show ?thesis .
qed

lemma successful_rtts_Nil_iff:
  "successful_rtts envs url n = [] \<longleftrightarrow>
     (\<forall>i. int i < n \<longrightarrow> probeRtt (envs i) url 4200 = Inr ProbeFail)"
proof -
  have "i < nat n \<longleftrightarrow> int i < n" for i by (simp add: zless_nat_eq_int_zless)
  then show ?thesis
    by (auto simp: successful_rtts_def attempt_rtts_Nil_iff)
qed

lemma probes_of_calls:
  "filter is_probe (concat (map (calls_of url n) xs)) = replicate (length xs) (ProbeRtt url 4200)"
  by (induction xs) (simp_all add: calls_of_def)

lemma median_index: "s \<noteq> [] \<Longrightarrow> length s div 2 < length (sort s)"
  by (cases s) simp_all

subsection \<open>The concrete runs, evaluated\<close>

lemma three_answers_rtts: "successful_rtts three_answers ping_url 3 = [220, 90, 310]"
  by (simp add: successful_rtts_def attempt_rtts_eq three_answers_def attempts_def
        answers_after_def fl_numeral upt_rec)

lemma two_answers_rtts: "successful_rtts two_answers ping_url 3 = [100, 300]"
  by (simp add: successful_rtts_def attempt_rtts_eq two_answers_def attempts_def
        answers_after_def old_answers_after_def times_out_def fl_numeral upt_rec)

lemma three_calls:
  "concat (map (calls_of url 3) [0..<3]) =
     [ProbeRtt url 4200, Wait 180, ProbeRtt url 4200, Wait 180, ProbeRtt url 4200]"
  by (simp add: calls_of_def upt_rec)

lemma three_answers_run:
  "measureRtt three_answers ping_url 3 =
     Inr (\<lparr>reachable = True, rtt = Some 220, successful = 3, samples = 3\<rparr>,
          [ProbeRtt ping_url 4200, Wait 180, ProbeRtt ping_url 4200, Wait 180,
           ProbeRtt ping_url 4200])"
  by (simp add: measureRtt_eq three_answers_rtts three_calls)

lemma two_answers_run:
  "measureRtt two_answers ping_url 3 =
     Inr (\<lparr>reachable = True, rtt = Some 300, successful = 2, samples = 3\<rparr>,
          [ProbeRtt ping_url 4200, Wait 180, ProbeRtt ping_url 4200, Wait 180,
           ProbeRtt ping_url 4200])"
  by (simp add: measureRtt_eq two_answers_rtts three_calls)

subsection \<open>The median\<close>

text \<open>
  C1 as the specification words it does not hold: with two successful samples the
  element at index \<open>floor (2 / 2) = 1\<close> of the sorted array is the larger one. A run
  whose attempts take 100 ms, 300 ms and time out reports 300, not 100.
\<close>

theorem measureRtt_lower_middle_counterexample:
  "successful_rtts two_answers ping_url 3 = [100, 300] \<and>
   measureRtt two_answers ping_url 3 =
     Inr (\<lparr>reachable = True, rtt = Some 300, successful = 2, samples = 3\<rparr>,
          [ProbeRtt ping_url 4200, Wait 180, ProbeRtt ping_url 4200, Wait 180,
           ProbeRtt ping_url 4200]) \<and>
   measureRtt two_answers ping_url 3 \<noteq>
     Inr (\<lparr>reachable = True, rtt = Some 100, successful = 2, samples = 3\<rparr>,
          [ProbeRtt ping_url 4200, Wait 180, ProbeRtt ping_url 4200, Wait 180,
           ProbeRtt ping_url 4200])"
  by (simp add: two_answers_rtts two_answers_run)

text \<open>
  C1, amended: whenever at least one attempt of a run succeeds, \<open>measureRtt\<close> returns
  as \<open>rtt\<close> the element at index \<open>floor (length / 2)\<close> (counted from 0) of the
  successful round-trip times sorted ascending, with no averaging. On an even count this
  is the upper of the two middle elements: it is not below its left neighbour at
  index \<open>length / 2 - 1\<close>. Samples 220, 90, 310 give 220; samples 100, 300 give 300.
\<close>

theorem measureRtt_median:
  assumes "successful_rtts envs url n \<noteq> []"
  shows "\<exists>res calls. measureRtt envs url n = Inr (res, calls) \<and>
           rtt res = Some (sort (successful_rtts envs url n)
                             ! (length (successful_rtts envs url n) div 2)) \<and>
           (even (length (successful_rtts envs url n)) \<longrightarrow>
              sort (successful_rtts envs url n) ! (length (successful_rtts envs url n) div 2 - 1)
                \<le> sort (successful_rtts envs url n) ! (length (successful_rtts envs url n) div 2))"
proof -
  let ?s = "successful_rtts envs url n"
  have "length ?s div 2 < length (sort ?s)"
    using assms by (rule median_index)
  then have "sort ?s ! (length ?s div 2 - 1) \<le> sort ?s ! (length ?s div 2)"
    by (intro sorted_nth_mono) simp_all
  then show ?thesis
    using assms by (simp add: measureRtt_eq)
qed

theorem measureRtt_median_witness:
  "successful_rtts three_answers ping_url 3 \<noteq> [] \<and>
   (\<exists>res calls. measureRtt three_answers ping_url 3 = Inr (res, calls) \<and> rtt res = Some 220) \<and>
   successful_rtts two_answers ping_url 3 \<noteq> [] \<and>
   (\<exists>res calls. measureRtt two_answers ping_url 3 = Inr (res, calls) \<and> rtt res = Some 300)"
  using measureRtt_median [of three_answers ping_url 3]
    measureRtt_median [of two_answers ping_url 3]
  by (simp add: three_answers_rtts two_answers_rtts)

subsection \<open>Classification\<close>

text \<open>
  C2: a reachable result with median \<open>r\<close> is rendered \<open>up\<close> when \<open>r < 150\<close>,
  \<open>warn\<close> (the degraded state) when \<open>150 \<le> r \<le> 700\<close> and \<open>down\<close> when \<open>r > 700\<close>; a
  result that is not reachable is rendered \<open>down\<close>. So 149 is up, 150 and 700 are
  degraded, 701 is down.
\<close>

theorem classify_boundaries:
  "(reachable result \<and> rtt result = Some r \<and> r < 150 \<longrightarrow> fst (classify result u) = Up) \<and>
   (reachable result \<and> rtt result = Some r \<and> 150 \<le> r \<and> r \<le> 700 \<longrightarrow>
      fst (classify result u) = Warn) \<and>
   (reachable result \<and> rtt result = Some r \<and> 700 < r \<longrightarrow> fst (classify result u) = Down) \<and>
   (\<not> reachable result \<longrightarrow> fst (classify result u) = Down)"
  by (simp add: classify_def)

theorem classify_boundaries_witness:
  "fst (classify \<lparr>reachable = True, rtt = Some 149, successful = 3, samples = 3\<rparr> 0) = Up \<and>
   fst (classify \<lparr>reachable = True, rtt = Some 150, successful = 3, samples = 3\<rparr> 0) = Warn \<and>
   fst (classify \<lparr>reachable = True, rtt = Some 700, successful = 3, samples = 3\<rparr> 0) = Warn \<and>
   fst (classify \<lparr>reachable = True, rtt = Some 701, successful = 3, samples = 3\<rparr> 0) = Down \<and>
   fst (classify \<lparr>reachable = False, rtt = None, successful = 0, samples = 3\<rparr> 0) = Down"
  using
    classify_boundaries [of "\<lparr>reachable = True, rtt = Some 149, successful = 3, samples = 3\<rparr>" 149 0]
    classify_boundaries [of "\<lparr>reachable = True, rtt = Some 150, successful = 3, samples = 3\<rparr>" 150 0]
    classify_boundaries [of "\<lparr>reachable = True, rtt = Some 700, successful = 3, samples = 3\<rparr>" 700 0]
    classify_boundaries [of "\<lparr>reachable = True, rtt = Some 701, successful = 3, samples = 3\<rparr>" 701 0]
    classify_boundaries [of "\<lparr>reachable = False, rtt = None, successful = 0, samples = 3\<rparr>" 0 0]
  by simp

text \<open>
  C4: in the degraded range the text shown is made from the draw of \<open>Math.random()\<close>
  alone. Two reachable results whose medians both lie in 150..700 are rendered
  identically under the same draw \<open>u\<close>, a double in \<open>[0, 1)\<close>: state \<open>warn\<close> and the
  number \<open>randomWarnPing u\<close>, an integer from 150 to 160 inclusive also after the
  rounding of the product. The measured median does not enter the text.
\<close>

theorem classify_warn_synthetic:
  assumes "reachable res1" and "rtt res1 = Some r1" and "150 \<le> r1" and "r1 \<le> 700"
    and "reachable res2" and "rtt res2 = Some r2" and "150 \<le> r2" and "r2 \<le> 700"
    and "is_double u" and "0 \<le> u" and "u < 1"
  shows "\<exists>v. classify res1 u = (Warn, Millis v) \<and> classify res2 u = (Warn, Millis v) \<and>
           v = randomWarnPing u \<and> 150 \<le> v \<and> v \<le> 160"
proof -
  have "150 \<le> randomWarnPing u" and "randomWarnPing u \<le> 160"
    using randomWarnPing_eq [OF assms(9-11)] by simp_all
  then show ?thesis
    using assms(1-8) by (simp add: classify_def)
qed

theorem classify_warn_synthetic_witness:
  "reachable \<lparr>reachable = True, rtt = Some 150, successful = 3, samples = 3\<rparr> \<and>
   reachable \<lparr>reachable = True, rtt = Some 700, successful = 1, samples = 3\<rparr> \<and>
   is_double 0 \<and> is_double (1 / 2) \<and> is_double (8188362958855447 / 2 ^ 53) \<and>
   is_double (1 - 1 / 2 ^ 53) \<and> (1 - 1 / 2 ^ 53 :: real) < 1 \<and>
   classify \<lparr>reachable = True, rtt = Some 150, successful = 3, samples = 3\<rparr> 0
     = (Warn, Millis 150) \<and>
   classify \<lparr>reachable = True, rtt = Some 700, successful = 1, samples = 3\<rparr> 0
     = (Warn, Millis 150) \<and>
   classify \<lparr>reachable = True, rtt = Some 150, successful = 3, samples = 3\<rparr> (1 / 2)
     = (Warn, Millis 155) \<and>
   classify \<lparr>reachable = True, rtt = Some 700, successful = 1, samples = 3\<rparr> (1 / 2)
     = (Warn, Millis 155) \<and>
   classify \<lparr>reachable = True, rtt = Some 150, successful = 3, samples = 3\<rparr>
       (8188362958855447 / 2 ^ 53)
     = (Warn, Millis 160) \<and>
   classify \<lparr>reachable = True, rtt = Some 700, successful = 1, samples = 3\<rparr>
       (8188362958855447 / 2 ^ 53)
     = (Warn, Millis 160) \<and>
   classify \<lparr>reachable = True, rtt = Some 150, successful = 3, samples = 3\<rparr>
       (1 - 1 / 2 ^ 53)
     = (Warn, Millis 160) \<and>
   classify \<lparr>reachable = True, rtt = Some 700, successful = 1, samples = 3\<rparr>
       (1 - 1 / 2 ^ 53)
     = (Warn, Millis 160)"
  using
    classify_warn_synthetic
      [of "\<lparr>reachable = True, rtt = Some 150, successful = 3, samples = 3\<rparr>" 150
          "\<lparr>reachable = True, rtt = Some 700, successful = 1, samples = 3\<rparr>" 700 0]
    classify_warn_synthetic
      [of "\<lparr>reachable = True, rtt = Some 150, successful = 3, samples = 3\<rparr>" 150
          "\<lparr>reachable = True, rtt = Some 700, successful = 1, samples = 3\<rparr>" 700 "1 / 2"]
    classify_warn_synthetic
      [of "\<lparr>reachable = True, rtt = Some 150, successful = 3, samples = 3\<rparr>" 150
          "\<lparr>reachable = True, rtt = Some 700, successful = 1, samples = 3\<rparr>" 700
          "8188362958855447 / 2 ^ 53"]
    classify_warn_synthetic
      [of "\<lparr>reachable = True, rtt = Some 150, successful = 3, samples = 3\<rparr>" 150
          "\<lparr>reachable = True, rtt = Some 700, successful = 1, samples = 3\<rparr>" 700
          "1 - 1 / 2 ^ 53"]
    is_double_0 is_double_half is_double_draw is_double_below_1
    randomWarnPing_0 randomWarnPing_half randomWarnPing_draw randomWarnPing_below_1
  by simp

subsection \<open>The attempt budget\<close>

text \<open>
  C3: for a sample count \<open>n \<ge> 1\<close> and any outcomes of the attempts, a run calls
  \<open>probeRtt\<close> exactly \<open>n\<close> times, each time with the address and 4200 ms, and reports
  \<open>samples = n\<close>. A success does not end the run early.
\<close>

theorem measureRtt_attempt_budget:
  assumes "1 \<le> n"
  shows "\<exists>res calls. measureRtt envs url n = Inr (res, calls) \<and>
           filter is_probe calls = replicate (nat n) (ProbeRtt url 4200) \<and>
           int (length (filter is_probe calls)) = n \<and>
           samples res = n"
  using assms by (simp add: measureRtt_eq probes_of_calls)

theorem measureRtt_attempt_budget_witness:
  "(1::int) \<le> 3 \<and>
   (\<exists>res calls. measureRtt two_answers ping_url 3 = Inr (res, calls) \<and>
      filter is_probe calls = replicate 3 (ProbeRtt ping_url 4200) \<and>
      int (length (filter is_probe calls)) = 3 \<and> samples res = 3)"
  using measureRtt_attempt_budget [of 3 two_answers ping_url] by simp

text \<open>
  C9: with a sample count of 0 no call is made at all and the result is
  \<open>{ reachable: false, successful: 0, samples: 0 }\<close>, which is rendered \<open>down\<close>.
\<close>

theorem measureRtt_zero_samples:
  "measureRtt envs url 0 =
     Inr (\<lparr>reachable = False, rtt = None, successful = 0, samples = 0\<rparr>, []) \<and>
   classify \<lparr>reachable = False, rtt = None, successful = 0, samples = 0\<rparr> u
     = (Down, Unavailable)"
  by (simp add: measureRtt_eq successful_rtts_def classify_def)

theorem measureRtt_zero_samples_witness:
  "measureRtt three_answers ping_url 0 =
     Inr (\<lparr>reachable = False, rtt = None, successful = 0, samples = 0\<rparr>, []) \<and>
   classify \<lparr>reachable = False, rtt = None, successful = 0, samples = 0\<rparr> (1 / 2)
     = (Down, Unavailable)"
  using measureRtt_zero_samples [of three_answers ping_url "1 / 2"] by simp

subsection \<open>One probe\<close>

text \<open>
  C5: for every address and every timeout, \<open>probeRtt\<close> returns and throws nothing.
  When the address parses and the request is answered before the timer fires, the
  result is \<open>{ ok: true, rtt }\<close> with \<open>rtt\<close> the elapsed time, which is the double
  \<open>performance.now() - startedAt\<close>, rounded to the nearest integer (at most half a
  millisecond away from it). When the address does not parse, the request is rejected,
  or the timer fires first, the result is \<open>{ ok: false }\<close>, the same for each of these
  causes and in both branches of the function.
\<close>

theorem probeRtt_never_throws:
  "(\<exists>r. probeRtt env url timeoutMs = Inr r) \<and>
   (cache_busted env url \<noteq> None \<and> settles env = Resolves \<longrightarrow>
      probeRtt env url timeoutMs
        = Inr (ProbeOk (round (fl (finishedAt env - startedAt env)))) \<and>
      \<bar>real_of_int (round (fl (finishedAt env - startedAt env)))
         - fl (finishedAt env - startedAt env)\<bar> \<le> 1 / 2) \<and>
   (cache_busted env url = None \<or> settles env = Rejects \<or> settles env = DeadlineFirst \<longrightarrow>
      probeRtt env url timeoutMs = Inr ProbeFail)"
proof -
  have "settles env \<noteq> Resolves" if "settles env = Rejects \<or> settles env = DeadlineFirst"
    using that by auto
  moreover have "\<bar>real_of_int (round (fl (finishedAt env - startedAt env)))
      - fl (finishedAt env - startedAt env)\<bar> \<le> 1 / 2"
    by (rule of_int_round_abs_le)
  ultimately show ?thesis
    by (auto simp: probeRtt_cases)
qed

text \<open>
  With clock readings 0.1 and 149.6 the difference of the two doubles is 149.5 and the
  probe reports 150; the exact difference of the two lies just below 149.5.
\<close>

theorem probeRtt_never_throws_witness:
  "probeRtt tenth_ms_clock ping_url 4200 = Inr (ProbeOk 150) \<and>
   probeRtt ((answers_after (1199 / 4))\<lparr>has_AbortController := False\<rparr>) ping_url 4200
     = Inr (ProbeOk 300) \<and>
   probeRtt times_out ping_url 4200 = Inr ProbeFail \<and>
   probeRtt (times_out\<lparr>has_AbortController := False\<rparr>) ping_url 4200 = Inr ProbeFail \<and>
   probeRtt ((answers_after 20)\<lparr>settles := Rejects\<rparr>) ping_url 4200 = Inr ProbeFail \<and>
   probeRtt ((answers_after 20)\<lparr>cache_busted := (\<lambda>u. None)\<rparr>) ping_url 4200 = Inr ProbeFail"
  using probeRtt_never_throws [of tenth_ms_clock ping_url 4200]
    probeRtt_never_throws
      [of "(answers_after (1199 / 4))\<lparr>has_AbortController := False\<rparr>" ping_url 4200]
    probeRtt_never_throws [of times_out ping_url 4200]
    probeRtt_never_throws [of "times_out\<lparr>has_AbortController := False\<rparr>" ping_url 4200]
    probeRtt_never_throws [of "(answers_after 20)\<lparr>settles := Rejects\<rparr>" ping_url 4200]
    probeRtt_never_throws [of "(answers_after 20)\<lparr>cache_busted := (\<lambda>u. None)\<rparr>" ping_url 4200]
  by (simp add: answers_after_def tenth_ms_clock_def times_out_def fl_clock_example
        fl_quarter round_def)

subsection \<open>A card without an address\<close>

text \<open>
  C6: a card whose \<open>data-ping-url\<close> is missing or empty is rendered \<open>down\<close> at once;
  \<open>measureRtt\<close> is not called for it, so no probe and no pause is made.
\<close>

theorem pingCard_without_url:
  "pingCard envs u None = Inr ((Down, Unavailable), []) \<and>
   pingCard envs u (Some []) = Inr ((Down, Unavailable), [])"
  by (simp add: pingCard_def)

theorem pingCard_without_url_witness:
  "pingCard three_answers (1 / 2) None = Inr ((Down, Unavailable), []) \<and>
   pingCard three_answers (1 / 2) (Some []) = Inr ((Down, Unavailable), [])"
  using pingCard_without_url [of three_answers "1 / 2"] by simp

subsection \<open>The result of a run\<close>

text \<open>
  C7: for a sample count \<open>n \<ge> 0\<close> the result of a run satisfies
  \<open>0 \<le> successful \<le> samples\<close>; \<open>reachable\<close> holds exactly when some attempt among the
  \<open>n\<close> succeeded; \<open>rtt\<close> is present exactly when \<open>reachable\<close> holds; and when every
  attempt fails the result is not reachable, counts 0 successes and is rendered
  \<open>down\<close>, the thresholds never being compared.
\<close>

theorem measureRtt_invariants:
  assumes "0 \<le> n"
  shows "\<exists>res calls. measureRtt envs url n = Inr (res, calls) \<and>
           0 \<le> int (successful res) \<and> int (successful res) \<le> samples res \<and>
           (reachable res \<longleftrightarrow>
              (\<exists>i r. int i < n \<and> probeRtt (envs i) url 4200 = Inr (ProbeOk r))) \<and>
           (rtt res \<noteq> None \<longleftrightarrow> reachable res) \<and>
           ((\<forall>i. int i < n \<longrightarrow> probeRtt (envs i) url 4200 = Inr ProbeFail) \<longrightarrow>
              \<not> reachable res \<and> successful res = 0 \<and> classify res u = (Down, Unavailable))"
proof -
  let ?s = "successful_rtts envs url n"
  have len: "int (length ?s) \<le> n"
    using length_successful_rtts [of envs url n] assms by linarith
  have some: "?s \<noteq> [] \<longleftrightarrow> (\<exists>i r. int i < n \<and> probeRtt (envs i) url 4200 = Inr (ProbeOk r))"
  proof -
    have "?s \<noteq> [] \<longleftrightarrow> (\<exists>r. r \<in> set ?s)"
      by (cases ?s) auto
    then show ?thesis
      by (auto simp: set_successful_rtts)
  qed
  have none: "?s = []" if "\<forall>i. int i < n \<longrightarrow> probeRtt (envs i) url 4200 = Inr ProbeFail"
    using that by (simp add: successful_rtts_Nil_iff)
  show ?thesis
  proof (cases "?s = []")
    case True
    with some show ?thesis
      by (simp add: measureRtt_eq classify_def assms)
  next
    case False
    with none have "\<not> (\<forall>i. int i < n \<longrightarrow> probeRtt (envs i) url 4200 = Inr ProbeFail)"
      by blast
    with False some len show ?thesis
      by (simp add: measureRtt_eq)
  qed
qed

theorem measureRtt_invariants_witness:
  "(0::int) \<le> 3 \<and>
   probeRtt (no_answers 0) ping_url 4200 = Inr ProbeFail \<and>
   probeRtt (no_answers 1) ping_url 4200 = Inr ProbeFail \<and>
   probeRtt (no_answers 2) ping_url 4200 = Inr ProbeFail \<and>
   (\<exists>res calls. measureRtt no_answers ping_url 3 = Inr (res, calls) \<and>
      \<not> reachable res \<and> rtt res = None \<and> successful res = 0 \<and> samples res = 3 \<and>
      classify res 0 = (Down, Unavailable))"
proof -
  have fails: "\<forall>i. int i < 3 \<longrightarrow> probeRtt (no_answers i) ping_url 4200 = Inr ProbeFail"
    by (simp add: no_answers_def attempts_def times_out_def probeRtt_cases)
  have "samples res = 3" if "measureRtt no_answers ping_url 3 = Inr (res, calls)" for res calls
    using that by (simp add: measureRtt_eq split: if_splits) auto
  with fails measureRtt_invariants [of 3 no_answers ping_url 0] show ?thesis
    by auto
qed

text \<open>
  C10: when a run is reachable, its \<open>rtt\<close> is one of the round-trip times of its
  successful attempts: some attempt \<open>i\<close> below the sample count returned exactly it.
\<close>

theorem measureRtt_median_is_sample:
  assumes "measureRtt envs url n = Inr (res, calls)" and "reachable res"
  shows "\<exists>r. rtt res = Some r \<and> r \<in> set (successful_rtts envs url n) \<and>
           (\<exists>i. int i < n \<and> probeRtt (envs i) url 4200 = Inr (ProbeOk r))"
proof -
  let ?s = "successful_rtts envs url n"
  from assms have ne: "?s \<noteq> []"
    by (auto simp: measureRtt_eq split: if_splits)
  with assms(1) have r: "rtt res = Some (sort ?s ! (length ?s div 2))"
    by (auto simp: measureRtt_eq)
  from ne have "length ?s div 2 < length (sort ?s)"
    by (rule median_index)
  then have "sort ?s ! (length ?s div 2) \<in> set (sort ?s)"
    by (rule nth_mem)
  then have mem: "sort ?s ! (length ?s div 2) \<in> set ?s"
    by simp
  then have "\<exists>i. int i < n \<and> probeRtt (envs i) url 4200 = Inr (ProbeOk (sort ?s ! (length ?s div 2)))"
    by (simp only: set_successful_rtts)
  with r mem show ?thesis by blast
qed

theorem measureRtt_median_is_sample_witness:
  "measureRtt three_answers ping_url 3 =
     Inr (\<lparr>reachable = True, rtt = Some 220, successful = 3, samples = 3\<rparr>,
          [ProbeRtt ping_url 4200, Wait 180, ProbeRtt ping_url 4200, Wait 180,
           ProbeRtt ping_url 4200]) \<and>
   reachable \<lparr>reachable = True, rtt = Some 220, successful = 3, samples = 3\<rparr> \<and>
   220 \<in> set (successful_rtts three_answers ping_url 3) \<and>
   (\<exists>i. int i < 3 \<and> probeRtt (three_answers i) ping_url 4200 = Inr (ProbeOk 220))"
  using measureRtt_median_is_sample [OF three_answers_run]
  by (simp add: three_answers_run)

subsection \<open>Determinism of the status\<close>

text \<open>
  C8: the status rendered is a function of the sequence of attempt outcomes. Two runs
  whose attempts return the same results, one after the other, produce the same
  \<open>measureRtt\<close> result and the same status, whatever the address, the branch of
  \<open>probeRtt\<close> taken and the draw of \<open>Math.random()\<close> are.
\<close>

theorem status_determined_by_outcomes:
  assumes "\<forall>i<nat n. probeRtt (envs1 i) url1 4200 = probeRtt (envs2 i) url2 4200"
  shows "\<exists>res calls1 calls2.
           measureRtt envs1 url1 n = Inr (res, calls1) \<and>
           measureRtt envs2 url2 n = Inr (res, calls2) \<and>
           fst (classify res u1) = fst (classify res u2)"
proof -
  have same: "attempt_rtts (envs1 i) url1 = attempt_rtts (envs2 i) url2" if "i < nat n" for i
    using assms that by (simp add: attempt_rtts_def)
  have maps: "map (\<lambda>i. attempt_rtts (envs1 i) url1) [0..<nat n]
      = map (\<lambda>i. attempt_rtts (envs2 i) url2) [0..<nat n]"
    by (rule map_cong [OF refl]) (simp add: same)
  have "successful_rtts envs1 url1 n = successful_rtts envs2 url2 n"
    by (simp only: successful_rtts_def maps)
  moreover have "fst (classify res u1) = fst (classify res u2)" for res
    by (simp add: classify_def split: option.split)
  ultimately show ?thesis
    by (simp add: measureRtt_eq)
qed

theorem status_determined_by_outcomes_witness:
  "probeRtt (two_answers 0) ping_url 4200
     = probeRtt (two_answers_again 0) ''https://vpn.example/health'' 4200 \<and>
   probeRtt (two_answers 1) ping_url 4200
     = probeRtt (two_answers_again 1) ''https://vpn.example/health'' 4200 \<and>
   probeRtt (two_answers 2) ping_url 4200
     = probeRtt (two_answers_again 2) ''https://vpn.example/health'' 4200 \<and>
   (\<exists>res calls1 calls2.
      measureRtt two_answers ping_url 3 = Inr (res, calls1) \<and>
      measureRtt two_answers_again ''https://vpn.example/health'' 3 = Inr (res, calls2) \<and>
      fst (classify res 0) = Warn \<and> fst (classify res (9 / 10)) = Warn)"
proof -
  have same: "\<forall>i<nat 3. probeRtt (two_answers i) ping_url 4200
       = probeRtt (two_answers_again i) ''https://vpn.example/health'' 4200"
    by (simp add: two_answers_def two_answers_again_def attempts_def probeRtt_cases
          answers_after_def old_answers_after_def times_out_def fl_numeral fl_quarter
          round_def All_less_Suc eval_nat_numeral)
  from status_determined_by_outcomes [OF same, of 0 "9 / 10"] show ?thesis
    using same by (auto simp: two_answers_run classify_def)
qed

end
